theory Spec2Isabelle
  imports Main "HOL-Library.AList"
begin

section \<open>The dependency engine: data model\<close>

text \<open>
  The engine of package dependency keeps one worker per installed manifold alive and
  restarts a worker whenever one of its declared inputs changes. All engine state is
  handled by the methods below, each of which is translated from the engine's source.

  A worker is an opaque handle; a Go error value is \<open>error option\<close>, with \<open>None\<close> for
  nil. Errors built by \<open>errors.Errorf\<close> and \<open>errors.New\<close> carry their message.
\<close>

type_synonym worker = nat

type_synonym duration = int

datatype error = ErrDying | Errorf string

text \<open>
  An output function gets the worker and the caller's slot (\<open>None\<close> is a nil slot)
  and returns its verdict together with the slot as it has left it.
\<close>

type_synonym 's OutputFunc = "worker \<Rightarrow> 's option \<Rightarrow> bool \<times> 's option"

type_synonym 's GetResourceFunc = "string \<Rightarrow> 's option \<Rightarrow> bool \<times> 's option"

type_synonym 's StartFunc = "'s GetResourceFunc \<Rightarrow> worker option \<times> error option"

text \<open>
  Modelled from the spec: the declaration of type Manifold, which the engine uses but
  which is declared in another file of the package. It has the input names, the start
  function and the output function, the last one possibly omitted. The zero value is
  what a lookup of a missing key in a map of manifolds yields.
\<close>

record 's Manifold =
  Inputs :: "string list"
  Start :: "'s StartFunc option"
  Output :: "'s OutputFunc option"

definition zeroManifold :: "'s Manifold" where
  "zeroManifold = \<lparr>Inputs = [], Start = None, Output = None\<rparr>"

record workerInfo =
  starting :: bool
  stopping :: bool
  worker :: "worker option"

definition emptyInfo :: workerInfo where
  "emptyInfo = \<lparr>starting = False, stopping = False, worker = None\<rparr>"

definition stopped :: "workerInfo \<Rightarrow> bool" where
  "stopped info =
     (if worker info \<noteq> None then False
      else if starting info then False
      else True)"

text \<open>
  What the loop goroutine does to the world outside the engine's maps, in the order it
  does it: a call of \<open>tomb.Kill\<close> that takes effect, with its reason; a panic; a
  goroutine launched on \<open>runWorker\<close> with its three arguments; a call of \<open>Kill\<close>
  on a worker (tagged with the name it was issued for); and a result sent back to a
  caller of \<open>Install\<close>.
\<close>

datatype 's effect =
    TombKill "error option"
  | Panic
  | Go string "'s Manifold" duration
  | WorkerKill string worker
  | Result "error option"

text \<open>
  The three Go maps are association lists with distinct keys, written with
  \<open>AList.update\<close> and read with \<open>map_of\<close>; a missing key reads as the zero value, as
  in Go.

  The tomb is that of the library \<open>launchpad.net/tomb\<close>, which the engine imports. It
  is alive until the first call of \<open>Kill\<close> that takes effect, and dying from then on.
  \<open>Kill\<close> with the sentinel \<open>ErrDying\<close> never takes effect: on a dying tomb it
  returns at once, and on a tomb that is still alive it panics. Every other call of
  \<open>Kill\<close> leaves the tomb dying, and the tomb keeps the first reason given to it that
  is not nil. The log has the calls that took effect, so it holds the state of the tomb.
\<close>

record 's engine =
  isFatal :: "error option \<Rightarrow> bool"
  errorDelay :: duration
  bounceDelay :: duration
  manifolds :: "(string \<times> 's Manifold) list"
  dependents :: "(string \<times> string list) list"
  current :: "(string \<times> workerInfo) list"
  effects :: "'s effect list"

definition NewEngine :: "(error option \<Rightarrow> bool) \<Rightarrow> duration \<Rightarrow> duration \<Rightarrow> 's engine" where
  "NewEngine f ed bd =
     \<lparr>isFatal = f, errorDelay = ed, bounceDelay = bd,
      manifolds = [], dependents = [], current = [], effects = []\<rparr>"

definition current_of :: "'s engine \<Rightarrow> string \<Rightarrow> workerInfo" where
  "current_of e name = (case map_of (current e) name of None \<Rightarrow> emptyInfo | Some info \<Rightarrow> info)"

definition dependents_of :: "'s engine \<Rightarrow> string \<Rightarrow> string list" where
  "dependents_of e name = (case map_of (dependents e) name of None \<Rightarrow> [] | Some ds \<Rightarrow> ds)"

definition manifold_of :: "'s engine \<Rightarrow> string \<Rightarrow> 's Manifold" where
  "manifold_of e name = (case map_of (manifolds e) name of None \<Rightarrow> zeroManifold | Some m \<Rightarrow> m)"

fun isTombKill :: "'s effect \<Rightarrow> bool" where
  "isTombKill (TombKill r) = (r \<noteq> Some ErrDying)"
| "isTombKill _ = False"

fun isPanic :: "'s effect \<Rightarrow> bool" where
  "isPanic Panic = True"
| "isPanic _ = False"

fun isGo :: "'s effect \<Rightarrow> bool" where
  "isGo (Go n m d) = True"
| "isGo _ = False"

definition isDying :: "'s engine \<Rightarrow> bool" where
  "isDying e = list_ex isTombKill (effects e)"

definition panicked :: "'s engine \<Rightarrow> bool" where
  "panicked e = list_ex isPanic (effects e)"

definition tombKill :: "error option \<Rightarrow> 's engine \<Rightarrow> 's engine" where
  "tombKill reason e =
     (if reason = Some ErrDying
      then (if isDying e then e else e\<lparr>effects := effects e @ [Panic]\<rparr>)
      else e\<lparr>effects := effects e @ [TombKill reason]\<rparr>)"

definition workerKill :: "string \<Rightarrow> worker \<Rightarrow> 's engine \<Rightarrow> 's engine" where
  "workerKill name w e = e\<lparr>effects := effects e @ [WorkerKill name w]\<rparr>"

definition allStopped :: "'s engine \<Rightarrow> bool" where
  "allStopped e = list_all (\<lambda>(name, info). stopped info) (current e)"

section \<open>The loop's helper operations\<close>

definition start :: "'s engine \<Rightarrow> string \<Rightarrow> duration \<Rightarrow> 's engine" where
  "start e name delay =
     (if isDying e then e
      else
        let manifold = manifold_of e name;
            e1 = (if map_of (manifolds e) name = None
                  then tombKill (Some (Errorf (''fatal: unknown manifold '' @ name))) e
                  else e);
            info = current_of e1 name;
            e2 = (if \<not> stopped info
                  then tombKill (Some (Errorf ''fatal: trying to start a second %s manifold worker'')) e1
                  else e1);
            info' = info\<lparr>starting := True\<rparr>;
            e3 = e2\<lparr>current := AList.update name info' (current e2)\<rparr>
        in e3\<lparr>effects := effects e3 @ [Go name manifold delay]\<rparr>)"

definition stop :: "'s engine \<Rightarrow> string \<Rightarrow> 's engine" where
  "stop e name =
     (let info = current_of e name in
      if stopping info \<or> stopped info then e
      else
        let info' = info\<lparr>stopping := True\<rparr>;
            e1 = (case worker info' of None \<Rightarrow> e | Some w \<Rightarrow> workerKill name w e)
        in e1\<lparr>current := AList.update name info' (current e1)\<rparr>)"

definition bounce :: "'s engine \<Rightarrow> string \<Rightarrow> 's engine" where
  "bounce e d = (if stopped (current_of e d) then start e d (bounceDelay e) else stop e d)"

fun bounceLoop :: "'s engine \<Rightarrow> string list \<Rightarrow> 's engine" where
  "bounceLoop e [] = e"
| "bounceLoop e (d # ds) = bounceLoop (bounce e d) ds"

definition bounceDependents :: "'s engine \<Rightarrow> string \<Rightarrow> 's engine" where
  "bounceDependents e name = bounceLoop e (dependents_of e name)"

section \<open>The loop's event handlers\<close>

fun firstUnknown :: "(string \<times> 's Manifold) list \<Rightarrow> string list \<Rightarrow> string option" where
  "firstUnknown ms [] = None"
| "firstUnknown ms (input # inputs) =
     (if map_of ms input = None then Some input else firstUnknown ms inputs)"

fun addDependents :: "'s engine \<Rightarrow> string \<Rightarrow> string list \<Rightarrow> 's engine" where
  "addDependents e name [] = e"
| "addDependents e name (input # inputs) =
     addDependents
       (e\<lparr>dependents := AList.update input (dependents_of e input @ [name]) (dependents e)\<rparr>)
       name inputs"

definition gotInstall :: "'s engine \<Rightarrow> string \<Rightarrow> 's Manifold \<Rightarrow> error option \<times> 's engine" where
  "gotInstall e name manifold =
     (if map_of (manifolds e) name \<noteq> None
      then (Some (Errorf (name @ '' manifold already installed'')), e)
      else
        case firstUnknown (manifolds e) (Inputs manifold) of
          Some input \<Rightarrow>
            (Some (Errorf (name @ '' manifold depends on unknown '' @ input @ '' manifold'')), e)
        | None \<Rightarrow>
            let e1 = e\<lparr>manifolds := AList.update name manifold (manifolds e)\<rparr>;
                e2 = addDependents e1 name (Inputs manifold);
                e3 = e2\<lparr>current := AList.update name emptyInfo (current e2)\<rparr>
            in (None, start e3 name 0))"

definition gotStarted :: "'s engine \<Rightarrow> string \<Rightarrow> worker \<Rightarrow> 's engine" where
  "gotStarted e name w =
     (let info = current_of e name in
      if worker info \<noteq> None
      then workerKill name w
             (tombKill (Some (Errorf (''fatal: unexpected '' @ name @ '' manifold worker start''))) e)
      else if stopping info \<or> isDying e then workerKill name w e
      else
        let info' = info\<lparr>starting := False, worker := Some w\<rparr>;
            e1 = e\<lparr>current := AList.update name info' (current e)\<rparr>
        in bounceDependents e1 name)"

definition gotStopped :: "'s engine \<Rightarrow> string \<Rightarrow> error option \<Rightarrow> 's engine" where
  "gotStopped e name err =
     (let info = current_of e name in
      if stopped info
      then tombKill (Some (Errorf ''fatal: unexpected %s manifold worker stop'')) e
      else
        let e1 = e\<lparr>current := AList.update name emptyInfo (current e)\<rparr> in
        if isFatal e1 err then tombKill err e1
        else
          let e2 = (if err \<noteq> None then start e1 name (errorDelay e1)
                    else if stopping info then start e1 name (bounceDelay e1)
                    else e1)
          in if worker info \<noteq> None then bounceDependents e2 name else e2)"

section \<open>The driver's resource snapshot\<close>

text \<open>
  \<open>runWorker\<close> is the body of the goroutine that \<open>start\<close> launches. Its first
  statements fill two maps from the engine's maps, for the inputs of the manifold it was
  given, and close the accessor \<open>getResource\<close> over them. The engine state these
  statements read is the state at the moment the goroutine executes them, so the model
  takes it as an argument. A nil worker or output function in a map and a missing key
  read alike, as \<open>None\<close>.
\<close>

record 's snapshot =
  outputs :: "string \<Rightarrow> 's OutputFunc option"
  workers :: "string \<Rightarrow> worker option"

definition emptySnapshot :: "'s snapshot" where
  "emptySnapshot = \<lparr>outputs = (\<lambda>r. None), workers = (\<lambda>r. None)\<rparr>"

fun fillSnapshot :: "'s engine \<Rightarrow> string list \<Rightarrow> 's snapshot \<Rightarrow> 's snapshot" where
  "fillSnapshot e [] s = s"
| "fillSnapshot e (resourceName # rest) s =
     fillSnapshot e rest
       (s\<lparr>outputs := (outputs s)(resourceName := Output (manifold_of e resourceName)),
          workers := (workers s)(resourceName := worker (current_of e resourceName))\<rparr>)"

definition runWorker_snapshot :: "'s engine \<Rightarrow> 's Manifold \<Rightarrow> 's snapshot" where
  "runWorker_snapshot e manifold = fillSnapshot e (Inputs manifold) emptySnapshot"

definition getResource :: "'s snapshot \<Rightarrow> 's GetResourceFunc" where
  "getResource s resourceName out =
     (case workers s resourceName of
        None \<Rightarrow> (False, out)
      | Some w \<Rightarrow>
          (case outputs s resourceName of
             None \<Rightarrow> (out = None, out)
           | Some f \<Rightarrow> f w out))"

section \<open>The loop\<close>

text \<open>
  The loop selects among its channels for ever; here it consumes a list of events, which
  is what the channels and the tomb deliver. Beside the engine it has the local variable
  \<open>oneShotDying\<close> (true while it still holds the dying channel). The names of the
  stopped tickets received so far are kept as well: a ticket is sent only by a goroutine
  that \<open>start\<close> has launched, each goroutine sends one stopped ticket, as its last
  action, and at most one started ticket before it. So a started or stopped ticket for
  a name can arrive only while more goroutines have been launched for that name than
  stopped tickets received.

  \<open>EvDying\<close> is the receive on the one-shot dying channel, which can fire only while
  the loop still holds that channel and the tomb is dying. The loop then ranges over the
  keys of \<open>current\<close>; Go leaves the order of that iteration open, so the event carries
  the order taken, each key once. An event that cannot fire is passed over.
  \<open>ExtKill\<close> is a call of the engine's \<open>Kill\<close> from outside, between two
  iterations.

  The only call of \<open>tomb.Kill\<close> that can panic is the one \<open>gotStopped\<close> makes
  with the reported error, and \<open>gotStopped\<close> returns right after it; every other
  call has a reason built by \<open>errors.Errorf\<close> or \<open>errors.New\<close>, or nil. So a
  handler does nothing after a panic, and the loop, whose goroutine the panic unwinds,
  takes no further event. The outcome of the loop is \<open>Returned\<close> with its result
  once it has returned, \<open>Panicked\<close> after a panic, and \<open>Selecting\<close> while it
  waits for the next event.
\<close>

datatype outcome = Selecting | Returned error | Panicked

datatype 's event =
    ExtKill
  | EvDying "string list"
  | EvInstall string "'s Manifold"
  | EvStarted string worker
  | EvStopped string "error option"

record 's loopState =
  eng :: "'s engine"
  oneShotDying :: bool
  reported :: "string list"

fun goCount :: "string \<Rightarrow> 's effect list \<Rightarrow> nat" where
  "goCount name [] = 0"
| "goCount name (Go n m d # xs) = (if n = name then Suc (goCount name xs) else goCount name xs)"
| "goCount name (x # xs) = goCount name xs"

definition live :: "'s loopState \<Rightarrow> string \<Rightarrow> bool" where
  "live st name = (count_list (reported st) name < goCount name (effects (eng st)))"

fun enabled :: "'s loopState \<Rightarrow> 's event \<Rightarrow> bool" where
  "enabled st (EvDying names) =
     (oneShotDying st \<and> isDying (eng st) \<and>
      distinct names \<and> set names = set (map fst (current (eng st))))"
| "enabled st (EvStarted name w) = live st name"
| "enabled st (EvStopped name err) = live st name"
| "enabled st ev = True"

fun stopAll :: "'s engine \<Rightarrow> string list \<Rightarrow> 's engine" where
  "stopAll e [] = e"
| "stopAll e (name # names) = stopAll (stop e name) names"

fun select :: "'s loopState \<Rightarrow> 's event \<Rightarrow> 's loopState" where
  "select st (EvDying names) = st\<lparr>eng := stopAll (eng st) names, oneShotDying := False\<rparr>"
| "select st (EvInstall name manifold) =
     (case gotInstall (eng st) name manifold of
        (res, e') \<Rightarrow> st\<lparr>eng := e'\<lparr>effects := effects e' @ [Result res]\<rparr>\<rparr>)"
| "select st (EvStarted name w) = st\<lparr>eng := gotStarted (eng st) name w\<rparr>"
| "select st (EvStopped name err) =
     st\<lparr>eng := gotStopped (eng st) name err, reported := name # reported st\<rparr>"
| "select st ExtKill = st\<lparr>eng := tombKill None (eng st)\<rparr>"

fun loop :: "'s loopState \<Rightarrow> 's event list \<Rightarrow> 's loopState \<times> outcome" where
  "loop st [] = (st, Selecting)"
| "loop st (ExtKill # evs) = loop (select st ExtKill) evs"
| "loop st (ev # evs) =
     (if \<not> enabled st ev then loop st evs
      else
        let st' = select st ev in
        if panicked (eng st') then (st', Panicked)
        else if isDying (eng st') \<and> allStopped (eng st') then (st', Returned ErrDying)
        else loop st' evs)"

definition initial :: "(error option \<Rightarrow> bool) \<Rightarrow> duration \<Rightarrow> duration \<Rightarrow> 's loopState" where
  "initial f ed bd = \<lparr>eng = NewEngine f ed bd, oneShotDying = True, reported = []\<rparr>"

definition run :: "(error option \<Rightarrow> bool) \<Rightarrow> duration \<Rightarrow> duration \<Rightarrow> 's event list \<Rightarrow> 's loopState" where
  "run f ed bd evs = fst (loop (initial f ed bd) evs)"




text \<open>
  Observations of the log: what it holds for one name, and whether any goroutine was
  launched after the tomb was first killed.
\<close>

fun concerns :: "string \<Rightarrow> 's effect \<Rightarrow> bool" where
  "concerns name (Go n m d) = (n = name)"
| "concerns name (WorkerKill n w) = (n = name)"
| "concerns name x = False"

definition effectsFor :: "string \<Rightarrow> 's engine \<Rightarrow> 's effect list" where
  "effectsFor name e = filter (concerns name) (effects e)"

definition noGoAfterKill :: "'s effect list \<Rightarrow> bool" where
  "noGoAfterKill xs = (\<not> list_ex isGo (dropWhile (\<lambda>x. \<not> isTombKill x) xs))"

section \<open>Properties of engine states\<close>

text \<open>
  The relation between a manifold and each of its declared inputs, read off the installed
  manifolds: \<open>(d, n)\<close> is in it when \<open>n\<close> is among the inputs of \<open>d\<close>.
\<close>

definition inputsRel :: "'s engine \<Rightarrow> (string \<times> string) set" where
  "inputsRel e = {(d, n). n \<in> set (Inputs (manifold_of e d))}"

definition installed :: "'s engine \<Rightarrow> string \<Rightarrow> bool" where
  "installed e n = (map_of (manifolds e) n \<noteq> None)"

text \<open>
  What the loop maintains between two iterations. The map \<open>dependents\<close> is the
  transpose of the inputs; the inputs of an installed manifold are installed and of lower
  rank, for a suitable rank; an entry that is not stopped belongs to an installed
  manifold; no goroutine was launched after the tomb was first killed; and for every
  name the goroutines launched exceed the stopped tickets received by one exactly when
  the entry is not stopped.
\<close>

definition transposed :: "'s engine \<Rightarrow> bool" where
  "transposed e = (\<forall>n d. d \<in> set (dependents_of e n) \<longleftrightarrow> n \<in> set (Inputs (manifold_of e d)))"

definition ranked :: "'s engine \<Rightarrow> bool" where
  "ranked e = (\<exists>f :: string \<Rightarrow> nat. \<forall>d n. n \<in> set (Inputs (manifold_of e d)) \<longrightarrow> installed e n \<and> f n < f d)"

definition graphOK :: "'s engine \<Rightarrow> bool" where
  "graphOK e = (transposed e \<and> ranked e)"

definition entriesOK :: "'s engine \<Rightarrow> bool" where
  "entriesOK e = (\<forall>n. \<not> stopped (current_of e n) \<longrightarrow> installed e n)"

definition logOK :: "'s engine \<Rightarrow> bool" where
  "logOK e = noGoAfterKill (effects e)"

definition pot :: "'s engine \<Rightarrow> string \<Rightarrow> nat" where
  "pot e n = goCount n (effects e) + (if stopped (current_of e n) then 1 else 0)"

definition invariant :: "'s loopState \<Rightarrow> bool" where
  "invariant st =
     (graphOK (eng st) \<and> entriesOK (eng st) \<and> logOK (eng st) \<and>
      (\<forall>n. pot (eng st) n = Suc (count_list (reported st) n)))"

text \<open>
  The reasons the loop gives to calls of \<open>tomb.Kill\<close> that take effect: nil, an
  error the fatal predicate accepts, or the diagnostic for a worker started twice; never
  the dying sentinel.
\<close>

definition diagnostic :: "error option \<Rightarrow> bool" where
  "diagnostic r = (\<exists>name. r = Some (Errorf (''fatal: unexpected '' @ name @ '' manifold worker start'')))"

definition killsOK :: "'s engine \<Rightarrow> bool" where
  "killsOK e =
     (\<forall>r. TombKill r \<in> set (effects e) \<longrightarrow>
        r \<noteq> Some ErrDying \<and> (r = None \<or> isFatal e r \<or> diagnostic r))"

text \<open>
  Names for the intermediate states of two handlers: the engine after a successful
  \<open>gotInstall\<close> has recorded the manifold and before it calls \<open>start\<close>; the engine
  after \<open>gotStopped\<close> has reset the entry; and the engine after \<open>gotStopped\<close>
  has decided on the restart and before it bounces the dependents.
\<close>

definition register :: "'s engine \<Rightarrow> string \<Rightarrow> 's Manifold \<Rightarrow> 's engine" where
  "register e name manifold =
     (let e1 = e\<lparr>manifolds := AList.update name manifold (manifolds e)\<rparr>;
          e2 = addDependents e1 name (Inputs manifold)
      in e2\<lparr>current := AList.update name emptyInfo (current e2)\<rparr>)"

definition reset :: "'s engine \<Rightarrow> string \<Rightarrow> 's engine" where
  "reset e name = e\<lparr>current := AList.update name emptyInfo (current e)\<rparr>"

definition restart :: "'s engine \<Rightarrow> string \<Rightarrow> error option \<Rightarrow> 's engine" where
  "restart e name err =
     (if err \<noteq> None then start (reset e name) name (errorDelay e)
      else if stopping (current_of e name) then start (reset e name) name (bounceDelay e)
      else reset e name)"

text \<open>
  Manifolds and runs for concrete evaluation. \<open>A\<close> has no inputs, \<open>B\<close> has the input
  \<open>A\<close>, \<open>C\<close> names itself as input; none declares an output function. In
  \<open>bothRunning\<close> the loop has installed \<open>A\<close> and \<open>B\<close> and has been handed a
  worker for each.
\<close>

definition manifoldA :: "nat Manifold" where
  "manifoldA = \<lparr>Inputs = [], Start = Some (\<lambda>getResource. (Some 1, None)), Output = None\<rparr>"

definition manifoldB :: "nat Manifold" where
  "manifoldB = \<lparr>Inputs = [''A''], Start = Some (\<lambda>getResource. (Some 2, None)), Output = None\<rparr>"

definition manifoldC :: "nat Manifold" where
  "manifoldC = \<lparr>Inputs = [''C''], Start = Some (\<lambda>getResource. (Some 3, None)), Output = None\<rparr>"

definition onlyFatal :: "error option \<Rightarrow> error option \<Rightarrow> bool" where
  "onlyFatal fatal err = (err = fatal)"

definition neverFatal :: "error option \<Rightarrow> bool" where
  "neverFatal err = False"

definition runningA :: "nat event list" where
  "runningA = [EvInstall ''A'' manifoldA, EvStarted ''A'' 1]"

definition bothRunning :: "nat event list" where
  "bothRunning = [EvInstall ''A'' manifoldA, EvStarted ''A'' 1, EvInstall ''B'' manifoldB, EvStarted ''B'' 2]"

section \<open>Lemmas about the operations\<close>

lemma firstUnknown_None:
  "firstUnknown ms ins = None \<longleftrightarrow> (\<forall>i \<in> set ins. map_of ms i \<noteq> None)"
  by (induction ins) auto

lemma firstUnknown_Some:
  "firstUnknown ms ins = Some i \<Longrightarrow> i \<in> set ins \<and> map_of ms i = None"
  by (induction ins) (auto split: if_splits)

lemma fillSnapshot_workers:
  "workers (fillSnapshot e rs s) r = (if r \<in> set rs then worker (current_of e r) else workers s r)"
  by (induction rs arbitrary: s) auto

lemma fillSnapshot_outputs:
  "outputs (fillSnapshot e rs s) r =
     (if r \<in> set rs then Output (manifold_of e r) else outputs s r)"
  by (induction rs arbitrary: s) auto

subsection \<open>Reading and writing the maps\<close>

lemma current_of_update [simp]:
  "current_of (e\<lparr>current := AList.update n i (current e)\<rparr>) n' = (if n' = n then i else current_of e n')"
  by (simp add: current_of_def update_conv')

lemma current_of_effects [simp]: "current_of (e\<lparr>effects := x\<rparr>) n = current_of e n"
  by (simp add: current_of_def)

lemma current_of_tombKill [simp]: "current_of (tombKill r e) n = current_of e n"
  by (simp add: tombKill_def)

lemma current_of_workerKill [simp]: "current_of (workerKill a w e) n = current_of e n"
  by (simp add: workerKill_def)

lemma isDying_tombKill [simp]: "isDying (tombKill r e) = (isDying e \<or> r \<noteq> Some ErrDying)"
  by (auto simp: isDying_def tombKill_def)


lemma isDying_workerKill [simp]: "isDying (workerKill a w e) = isDying e"
  by (simp add: isDying_def workerKill_def)

lemma isDying_current [simp]: "isDying (e\<lparr>current := c\<rparr>) = isDying e"
  by (simp add: isDying_def)

lemma stopped_emptyInfo [simp]: "stopped emptyInfo"
  by (simp add: stopped_def emptyInfo_def)

lemma stopped_stopping [simp]: "stopped (i\<lparr>stopping := b\<rparr>) = stopped i"
  by (simp add: stopped_def)

lemma stopped_starting [simp]: "\<not> stopped (i\<lparr>starting := True\<rparr>)"
  by (simp add: stopped_def)

subsection \<open>The operation start\<close>

lemma start_dying [simp]: "isDying e \<Longrightarrow> start e n d = e"
  by (simp add: start_def)

lemma start_ok:
  "\<not> isDying e \<Longrightarrow> map_of (manifolds e) n \<noteq> None \<Longrightarrow> stopped (current_of e n) \<Longrightarrow>
   start e n d = e\<lparr>current := AList.update n ((current_of e n)\<lparr>starting := True\<rparr>) (current e),
                   effects := effects e @ [Go n (manifold_of e n) d]\<rparr>"
  by (auto simp: start_def Let_def)

lemma start_manifolds [simp]: "manifolds (start e n d) = manifolds e"
  by (simp add: start_def Let_def tombKill_def)

lemma start_dependents [simp]: "dependents (start e n d) = dependents e"
  by (simp add: start_def Let_def tombKill_def)

lemma start_consts [simp]:
  "isFatal (start e n d) = isFatal e" "errorDelay (start e n d) = errorDelay e"
  "bounceDelay (start e n d) = bounceDelay e"
  by (simp_all add: start_def Let_def tombKill_def)

lemma start_current_of:
  "current_of (start e n d) n' =
     (if n' = n \<and> \<not> isDying e then (current_of e n)\<lparr>starting := True\<rparr> else current_of e n')"
  by (simp add: start_def Let_def tombKill_def)

subsection \<open>The operation stop\<close>

lemma stop_manifolds [simp]: "manifolds (stop e n) = manifolds e"
  by (simp add: stop_def Let_def workerKill_def split: option.splits)

lemma stop_dependents [simp]: "dependents (stop e n) = dependents e"
  by (simp add: stop_def Let_def workerKill_def split: option.splits)

lemma stop_consts [simp]:
  "isFatal (stop e n) = isFatal e" "errorDelay (stop e n) = errorDelay e"
  "bounceDelay (stop e n) = bounceDelay e"
  by (simp_all add: stop_def Let_def workerKill_def split: option.splits)

lemma stop_isDying [simp]: "isDying (stop e n) = isDying e"
  by (simp add: stop_def Let_def split: option.splits)

lemma stop_current_of:
  "current_of (stop e n) n' =
     (if n' = n \<and> \<not> stopping (current_of e n) \<and> \<not> stopped (current_of e n)
      then (current_of e n)\<lparr>stopping := True\<rparr> else current_of e n')"
  by (simp add: stop_def Let_def split: option.splits)

lemma stop_stopped [simp]: "stopped (current_of (stop e n) n') = stopped (current_of e n')"
  by (simp add: stop_current_of)

lemma stop_effects:
  "effects (stop e n) = effects e @
     (if stopping (current_of e n) \<or> stopped (current_of e n) then []
      else case worker (current_of e n) of None \<Rightarrow> [] | Some w \<Rightarrow> [WorkerKill n w])"
  by (simp add: stop_def Let_def workerKill_def split: option.splits)

subsection \<open>The log of effects\<close>

lemma goCount_append [simp]: "goCount n (xs @ ys) = goCount n xs + goCount n ys"
  by (induction n xs rule: goCount.induct) auto

lemma list_ex_isGo_goCount: "\<not> list_ex isGo xs \<Longrightarrow> goCount n xs = 0"
  by (induction n xs rule: goCount.induct) auto

lemma noGoAfterKill_Nil [simp]: "noGoAfterKill []"
  by (simp add: noGoAfterKill_def)

lemma noGoAfterKill_snoc:
  "noGoAfterKill (xs @ [x]) \<longleftrightarrow> noGoAfterKill xs \<and> (isGo x \<longrightarrow> \<not> list_ex isTombKill xs)"
proof (cases "list_ex isTombKill xs")
  case True
  then have "\<exists>y \<in> set xs. \<not> \<not> isTombKill y"
    by (auto simp: list_ex_iff)
  then have "dropWhile (\<lambda>x. \<not> isTombKill x) (xs @ [x]) = dropWhile (\<lambda>x. \<not> isTombKill x) xs @ [x]"
    by (auto simp: dropWhile_append1)
  with True show ?thesis
    by (auto simp: noGoAfterKill_def list_ex_iff)
next
  case False
  then have a: "\<forall>y \<in> set xs. \<not> isTombKill y"
    by (auto simp: list_ex_iff)
  then have b: "dropWhile (\<lambda>x. \<not> isTombKill x) (xs @ [x]) = dropWhile (\<lambda>x. \<not> isTombKill x) [x]"
    by (simp add: dropWhile_append2)
  have c: "dropWhile (\<lambda>x. \<not> isTombKill x) xs = []"
    using a by simp
  show ?thesis
    unfolding noGoAfterKill_def b c using False by (cases x) auto
qed

lemma start_effects:
  "isDying e \<or> (installed e n \<and> stopped (current_of e n)) \<Longrightarrow>
   effects (start e n d) = effects e @ (if isDying e then [] else [Go n (manifold_of e n) d])"
  by (auto simp: start_def Let_def installed_def)

lemma start_isDying:
  "isDying e \<or> (installed e n \<and> stopped (current_of e n)) \<Longrightarrow> isDying (start e n d) = isDying e"
  by (auto simp: start_effects isDying_def)

lemma start_logOK:
  "logOK e \<Longrightarrow> isDying e \<or> (installed e n \<and> stopped (current_of e n)) \<Longrightarrow> logOK (start e n d)"
  by (auto simp: logOK_def start_effects noGoAfterKill_snoc isDying_def)

lemma stop_logOK: "logOK e \<Longrightarrow> logOK (stop e n)"
  by (auto simp: logOK_def stop_effects noGoAfterKill_snoc split: option.splits)

lemma start_installed [simp]: "installed (start e n d) n' = installed e n'"
  by (simp add: installed_def)

lemma stop_installed [simp]: "installed (stop e n) n' = installed e n'"
  by (simp add: installed_def)

lemma start_entriesOK:
  "entriesOK e \<Longrightarrow> isDying e \<or> installed e n \<Longrightarrow> entriesOK (start e n d)"
  by (auto simp: entriesOK_def start_current_of)

lemma stop_entriesOK: "entriesOK e \<Longrightarrow> entriesOK (stop e n)"
  by (auto simp: entriesOK_def)

lemma start_pot: "isDying e \<or> stopped (current_of e n) \<Longrightarrow> pot (start e n d) n' = pot e n'"
  by (auto simp: pot_def start_def Let_def tombKill_def)

lemma stop_pot [simp]: "pot (stop e n) n' = pot e n'"
  by (auto simp: pot_def stop_effects split: option.splits)

subsection \<open>Bouncing dependents\<close>

lemma bounce_manifolds [simp]: "manifolds (bounce e d) = manifolds e"
  by (simp add: bounce_def)

lemma bounce_dependents [simp]: "dependents (bounce e d) = dependents e"
  by (simp add: bounce_def)

lemma bounce_consts [simp]:
  "isFatal (bounce e n) = isFatal e" "errorDelay (bounce e n) = errorDelay e"
  "bounceDelay (bounce e n) = bounceDelay e"
  by (simp_all add: bounce_def)

lemma bounce_installed [simp]: "installed (bounce e d) n = installed e n"
  by (simp add: installed_def)

lemma bounce_pot [simp]: "pot (bounce e d) n = pot e n"
  by (simp add: bounce_def start_pot)

lemma bounce_logOK: "logOK e \<Longrightarrow> installed e d \<Longrightarrow> logOK (bounce e d)"
  by (simp add: bounce_def start_logOK stop_logOK)

lemma bounce_entriesOK: "entriesOK e \<Longrightarrow> installed e d \<Longrightarrow> entriesOK (bounce e d)"
  by (simp add: bounce_def start_entriesOK stop_entriesOK)

lemma bounce_isDying: "installed e d \<Longrightarrow> isDying (bounce e d) = isDying e"
  by (simp add: bounce_def start_isDying)

lemma bounceLoop_manifolds [simp]: "manifolds (bounceLoop e ds) = manifolds e"
  by (induction ds arbitrary: e) auto

lemma bounceLoop_dependents [simp]: "dependents (bounceLoop e ds) = dependents e"
  by (induction ds arbitrary: e) auto

lemma bounceLoop_consts [simp]:
  "isFatal (bounceLoop e ds) = isFatal e" "errorDelay (bounceLoop e ds) = errorDelay e"
  "bounceDelay (bounceLoop e ds) = bounceDelay e"
  by (induction ds arbitrary: e) auto

lemma bounceLoop_installed [simp]: "installed (bounceLoop e ds) n = installed e n"
  by (simp add: installed_def)

lemma bounceLoop_pot [simp]: "pot (bounceLoop e ds) n = pot e n"
  by (induction ds arbitrary: e) auto

lemma bounceLoop_logOK: "logOK e \<Longrightarrow> \<forall>d \<in> set ds. installed e d \<Longrightarrow> logOK (bounceLoop e ds)"
  by (induction ds arbitrary: e) (auto simp: bounce_logOK)

lemma bounceLoop_entriesOK:
  "entriesOK e \<Longrightarrow> \<forall>d \<in> set ds. installed e d \<Longrightarrow> entriesOK (bounceLoop e ds)"
  by (induction ds arbitrary: e) (auto simp: bounce_entriesOK)

lemma bounceLoop_isDying: "\<forall>d \<in> set ds. installed e d \<Longrightarrow> isDying (bounceLoop e ds) = isDying e"
  by (induction ds arbitrary: e) (auto simp: bounce_isDying)

subsection \<open>Stopping every worker\<close>

lemma stopAll_manifolds [simp]: "manifolds (stopAll e ns) = manifolds e"
  by (induction ns arbitrary: e) auto

lemma stopAll_dependents [simp]: "dependents (stopAll e ns) = dependents e"
  by (induction ns arbitrary: e) auto

lemma stopAll_pot [simp]: "pot (stopAll e ns) n = pot e n"
  by (induction ns arbitrary: e) auto

lemma stopAll_logOK: "logOK e \<Longrightarrow> logOK (stopAll e ns)"
  by (induction ns arbitrary: e) (auto simp: stop_logOK)

lemma stopAll_entriesOK: "entriesOK e \<Longrightarrow> entriesOK (stopAll e ns)"
  by (induction ns arbitrary: e) (auto simp: stop_entriesOK)

subsection \<open>The dependency graph\<close>

lemma manifold_of_not_installed: "\<not> installed e n \<Longrightarrow> manifold_of e n = zeroManifold"
  by (auto simp: installed_def manifold_of_def)

lemma Inputs_zeroManifold [simp]: "Inputs zeroManifold = []"
  by (simp add: zeroManifold_def)

lemma dependents_installed:
  "transposed e \<Longrightarrow> d \<in> set (dependents_of e n) \<Longrightarrow> installed e d"
  using manifold_of_not_installed [of e d] by (fastforce simp: transposed_def)

lemma dependents_of_update [simp]:
  "dependents_of (e\<lparr>dependents := AList.update i v (dependents e)\<rparr>) x =
     (if x = i then v else dependents_of e x)"
  by (simp add: dependents_of_def update_conv')

lemma addDependents_fields [simp]:
  "manifolds (addDependents e name ins) = manifolds e"
  "current (addDependents e name ins) = current e"
  "effects (addDependents e name ins) = effects e"
  "isFatal (addDependents e name ins) = isFatal e"
  "errorDelay (addDependents e name ins) = errorDelay e"
  "bounceDelay (addDependents e name ins) = bounceDelay e"
  by (induction e name ins rule: addDependents.induct) auto

lemma addDependents_set:
  "set (dependents_of (addDependents e name ins) x) =
     set (dependents_of e x) \<union> (if x \<in> set ins then {name} else {})"
  by (induction e name ins rule: addDependents.induct) auto

lemma gotInstall_ok_iff:
  "fst (gotInstall e name manifold) = None \<longleftrightarrow>
     \<not> installed e name \<and> (\<forall>i \<in> set (Inputs manifold). installed e i)"
  by (auto simp: gotInstall_def installed_def Let_def firstUnknown_None
      dest: firstUnknown_Some split: option.splits)

lemma gotInstall_fail: "fst (gotInstall e name manifold) \<noteq> None \<Longrightarrow> snd (gotInstall e name manifold) = e"
  by (auto simp: gotInstall_def Let_def split: option.splits)

lemma gotInstall_ok:
  "fst (gotInstall e name manifold) = None \<Longrightarrow>
   snd (gotInstall e name manifold) = start (register e name manifold) name 0"
  by (auto simp: gotInstall_def Let_def register_def split: option.splits if_splits)

lemma register_manifold_of:
  "manifold_of (register e name manifold) d = (if d = name then manifold else manifold_of e d)"
  by (simp add: register_def Let_def manifold_of_def update_conv')

lemma register_installed:
  "installed (register e name manifold) d = (d = name \<or> installed e d)"
  by (simp add: register_def Let_def installed_def update_conv')

lemma dependents_of_current [simp]: "dependents_of (e\<lparr>current := c\<rparr>) x = dependents_of e x"
  by (simp add: dependents_of_def)

lemma dependents_of_manifolds [simp]: "dependents_of (e\<lparr>manifolds := c\<rparr>) x = dependents_of e x"
  by (simp add: dependents_of_def)

lemma register_dependents:
  "set (dependents_of (register e name manifold) x) =
     set (dependents_of e x) \<union> (if x \<in> set (Inputs manifold) then {name} else {})"
  by (simp add: register_def Let_def addDependents_set)

lemma register_effects [simp]: "effects (register e name manifold) = effects e"
  by (simp add: register_def Let_def)

lemma register_current_of:
  "current_of (register e name manifold) n = (if n = name then emptyInfo else current_of e n)"
  by (simp add: register_def Let_def current_of_def update_conv')

lemma register_transposed:
  assumes "transposed e" "\<not> installed e name"
  shows "transposed (register e name manifold)"
  using assms manifold_of_not_installed [OF assms(2)]
  by (auto simp: transposed_def register_dependents register_manifold_of)

lemma register_ranked:
  assumes "ranked e" "\<not> installed e name" "\<forall>i \<in> set (Inputs manifold). installed e i"
  shows "ranked (register e name manifold)"
proof -
  from assms(1) obtain f :: "string \<Rightarrow> nat" where
    f: "\<And>d n. n \<in> set (Inputs (manifold_of e d)) \<Longrightarrow> installed e n \<and> f n < f d"
    by (auto simp: ranked_def)
  define g where "g = f(name := Suc (sum_list (map f (Inputs manifold))))"
  have "installed (register e name manifold) n \<and> g n < g d"
    if "n \<in> set (Inputs (manifold_of (register e name manifold) d))" for d n
  proof (cases "d = name")
    case True
    with that have n: "n \<in> set (Inputs manifold)"
      by (simp add: register_manifold_of)
    with assms have "installed e n" "n \<noteq> name"
      by auto
    moreover have "f n \<le> sum_list (map f (Inputs manifold))"
      using n by (simp add: member_le_sum_list)
    ultimately show ?thesis
      using True by (simp add: g_def register_installed)
  next
    case False
    with that have "n \<in> set (Inputs (manifold_of e d))"
      by (simp add: register_manifold_of)
    from f [OF this] assms(2) False show ?thesis
      by (auto simp: g_def register_installed)
  qed
  then show ?thesis
    unfolding ranked_def by blast
qed

lemma graphOK_cong:
  "manifolds e' = manifolds e \<Longrightarrow> dependents e' = dependents e \<Longrightarrow> graphOK e' = graphOK e"
  by (simp add: graphOK_def transposed_def ranked_def dependents_of_def manifold_of_def installed_def)

lemma installed_cong: "manifolds e' = manifolds e \<Longrightarrow> installed e' n = installed e n"
  by (simp add: installed_def)

subsection \<open>Appending to the log\<close>

lemma log_append_graphOK [simp]: "graphOK (e\<lparr>effects := xs\<rparr>) = graphOK e"
  by (rule graphOK_cong) simp_all

lemma log_append_fields [simp]:
  "entriesOK (e\<lparr>effects := xs\<rparr>) = entriesOK e"
  "installed (e\<lparr>effects := xs\<rparr>) n = installed e n"
  by (simp_all add: entriesOK_def installed_def)

lemma log_append_pot: "\<not> isGo x \<Longrightarrow> pot (e\<lparr>effects := effects e @ [x]\<rparr>) n = pot e n"
  by (cases x) (simp_all add: pot_def)

lemma log_append_logOK: "\<not> isGo x \<Longrightarrow> logOK e \<Longrightarrow> logOK (e\<lparr>effects := effects e @ [x]\<rparr>)"
  by (simp add: logOK_def noGoAfterKill_snoc)

lemma tombKill_fields [simp]:
  "graphOK (tombKill r e) = graphOK e"
  "entriesOK (tombKill r e) = entriesOK e"
  "pot (tombKill r e) n = pot e n"
  "manifolds (tombKill r e) = manifolds e"
  "dependents (tombKill r e) = dependents e"
  by (simp_all add: tombKill_def log_append_pot)

lemma tombKill_logOK: "logOK e \<Longrightarrow> logOK (tombKill r e)"
  by (simp add: tombKill_def log_append_logOK)

lemma workerKill_fields [simp]:
  "graphOK (workerKill a w e) = graphOK e"
  "entriesOK (workerKill a w e) = entriesOK e"
  "pot (workerKill a w e) n = pot e n"
  "manifolds (workerKill a w e) = manifolds e"
  "dependents (workerKill a w e) = dependents e"
  by (simp_all add: workerKill_def log_append_pot)

lemma workerKill_logOK: "logOK e \<Longrightarrow> logOK (workerKill a w e)"
  by (simp add: workerKill_def log_append_logOK)

subsection \<open>The handler gotInstall\<close>

lemma start_graphOK [simp]: "graphOK (start e n d) = graphOK e"
  by (rule graphOK_cong) simp_all

lemma bounceLoop_graphOK [simp]: "graphOK (bounceLoop e ds) = graphOK e"
  by (rule graphOK_cong) simp_all

lemma stopAll_graphOK [simp]: "graphOK (stopAll e ds) = graphOK e"
  by (rule graphOK_cong) simp_all

lemma gotInstall_graphOK: "graphOK e \<Longrightarrow> graphOK (snd (gotInstall e name manifold))"
proof (cases "fst (gotInstall e name manifold) = None")
  case True
  assume "graphOK e"
  with True have "graphOK (register e name manifold)"
    by (simp add: gotInstall_ok_iff graphOK_def register_transposed register_ranked)
  with True show ?thesis
    by (simp add: gotInstall_ok)
next
  case False
  assume "graphOK e"
  with False show ?thesis
    by (simp add: gotInstall_fail)
qed

lemma register_entriesOK: "entriesOK e \<Longrightarrow> entriesOK (register e name manifold)"
  by (auto simp: entriesOK_def register_current_of register_installed)

lemma register_logOK: "logOK (register e name manifold) = logOK e"
  by (simp add: logOK_def)

lemma register_isDying: "isDying (register e name manifold) = isDying e"
  by (simp add: isDying_def)

lemma register_pot:
  "entriesOK e \<Longrightarrow> \<not> installed e name \<Longrightarrow> pot (register e name manifold) n = pot e n"
  by (auto simp: pot_def register_current_of entriesOK_def)

lemma gotInstall_entriesOK: "entriesOK e \<Longrightarrow> entriesOK (snd (gotInstall e name manifold))"
proof (cases "fst (gotInstall e name manifold) = None")
  case True
  assume "entriesOK e"
  with True show ?thesis
    by (simp add: gotInstall_ok start_entriesOK register_entriesOK register_installed)
next
  case False
  assume "entriesOK e"
  with False show ?thesis
    by (simp add: gotInstall_fail)
qed

lemma gotInstall_logOK: "logOK e \<Longrightarrow> logOK (snd (gotInstall e name manifold))"
proof (cases "fst (gotInstall e name manifold) = None")
  case True
  assume "logOK e"
  with True show ?thesis
    by (simp add: gotInstall_ok start_logOK register_logOK register_installed register_current_of)
next
  case False
  assume "logOK e"
  with False show ?thesis
    by (simp add: gotInstall_fail)
qed

lemma gotInstall_pot: "entriesOK e \<Longrightarrow> pot (snd (gotInstall e name manifold)) n = pot e n"
proof (cases "fst (gotInstall e name manifold) = None")
  case True
  assume "entriesOK e"
  with True show ?thesis
    by (simp add: gotInstall_ok start_pot register_pot register_current_of gotInstall_ok_iff)
next
  case False
  then show ?thesis
    by (simp add: gotInstall_fail)
qed

subsection \<open>The handler gotStarted\<close>

lemma gotStarted_cases:
  "gotStarted e name w =
     (if worker (current_of e name) \<noteq> None
      then workerKill name w
             (tombKill (Some (Errorf (''fatal: unexpected '' @ name @ '' manifold worker start''))) e)
      else if stopping (current_of e name) \<or> isDying e then workerKill name w e
      else bounceLoop
             (e\<lparr>current := AList.update name
                   ((current_of e name)\<lparr>starting := False, worker := Some w\<rparr>) (current e)\<rparr>)
             (dependents_of e name))"
  by (simp add: gotStarted_def Let_def bounceDependents_def)

lemma update_current_graphOK [simp]: "graphOK (e\<lparr>current := c\<rparr>) = graphOK e"
  by (rule graphOK_cong) simp_all

lemma update_current_fields [simp]:
  "logOK (e\<lparr>current := c\<rparr>) = logOK e"
  "installed (e\<lparr>current := c\<rparr>) n = installed e n"
  by (simp_all add: logOK_def installed_def)

lemma gotStarted_graphOK [simp]: "graphOK (gotStarted e name w) = graphOK e"
  by (simp add: gotStarted_cases)

lemma gotStarted_logOK:
  assumes "logOK e" "transposed e"
  shows "logOK (gotStarted e name w)"
  using assms dependents_installed [OF assms(2), of _ name]
  by (auto simp: gotStarted_cases workerKill_logOK tombKill_logOK intro!: bounceLoop_logOK)

lemma gotStarted_entriesOK:
  assumes "entriesOK e" "transposed e" "\<not> stopped (current_of e name)"
  shows "entriesOK (gotStarted e name w)"
proof -
  have "installed e name"
    using assms by (simp add: entriesOK_def)
  then have "entriesOK (e\<lparr>current := AList.update name i (current e)\<rparr>)" for i
    using assms(1) by (auto simp: entriesOK_def)
  then show ?thesis
    using assms dependents_installed [OF assms(2), of _ name]
    by (auto simp: gotStarted_cases intro!: bounceLoop_entriesOK)
qed

lemma gotStarted_pot:
  assumes "\<not> stopped (current_of e name)"
  shows "pot (gotStarted e name w) n = pot e n"
proof -
  have "pot (e\<lparr>current := AList.update name
                   ((current_of e name)\<lparr>starting := False, worker := Some w\<rparr>) (current e)\<rparr>) n = pot e n"
    using assms by (auto simp: pot_def stopped_def split: if_splits)
  then show ?thesis
    by (simp add: gotStarted_cases)
qed

subsection \<open>The handler gotStopped\<close>

lemma dependents_of_ops [simp]:
  "dependents_of (start e n d) x = dependents_of e x"
  "dependents_of (stop e n) x = dependents_of e x"
  "dependents_of (bounce e n) x = dependents_of e x"
  "dependents_of (bounceLoop e ds) x = dependents_of e x"
  "dependents_of (tombKill r e) x = dependents_of e x"
  "dependents_of (e\<lparr>effects := xs\<rparr>) x = dependents_of e x"
  by (simp_all add: dependents_of_def)

lemma manifold_of_ops [simp]:
  "manifold_of (start e n d) x = manifold_of e x"
  "manifold_of (stop e n) x = manifold_of e x"
  "manifold_of (bounce e n) x = manifold_of e x"
  "manifold_of (bounceLoop e ds) x = manifold_of e x"
  "manifold_of (tombKill r e) x = manifold_of e x"
  "manifold_of (e\<lparr>effects := xs\<rparr>) x = manifold_of e x"
  "manifold_of (e\<lparr>current := c\<rparr>) x = manifold_of e x"
  by (simp_all add: manifold_of_def)

lemma gotStopped_cases:
  "gotStopped e name err =
     (if stopped (current_of e name)
      then tombKill (Some (Errorf ''fatal: unexpected %s manifold worker stop'')) e
      else if isFatal e err then tombKill err (reset e name)
      else if worker (current_of e name) \<noteq> None
      then bounceLoop (restart e name err) (dependents_of e name)
      else restart e name err)"
  by (simp add: gotStopped_def Let_def bounceDependents_def reset_def restart_def)

lemma reset_fields [simp]:
  "manifolds (reset e n) = manifolds e" "dependents (reset e n) = dependents e"
  "effects (reset e n) = effects e" "graphOK (reset e n) = graphOK e"
  "logOK (reset e n) = logOK e" "installed (reset e n) x = installed e x"
  "isDying (reset e n) = isDying e"
  "current_of (reset e n) x = (if x = n then emptyInfo else current_of e x)"
  by (simp_all add: reset_def)

lemma reset_entriesOK: "entriesOK e \<Longrightarrow> entriesOK (reset e n)"
  by (auto simp: entriesOK_def)

lemma reset_pot:
  "\<not> stopped (current_of e name) \<Longrightarrow> pot (reset e name) n = (if n = name then Suc (pot e n) else pot e n)"
  by (auto simp: pot_def)

lemma restart_fields [simp]:
  "manifolds (restart e n err) = manifolds e" "dependents (restart e n err) = dependents e"
  "graphOK (restart e n err) = graphOK e" "installed (restart e n err) x = installed e x"
  by (simp_all add: restart_def)

lemma restart_entriesOK: "entriesOK e \<Longrightarrow> installed e n \<Longrightarrow> entriesOK (restart e n err)"
  by (simp add: restart_def start_entriesOK reset_entriesOK)

lemma restart_logOK: "logOK e \<Longrightarrow> installed e n \<Longrightarrow> logOK (restart e n err)"
  by (simp add: restart_def start_logOK)

lemma restart_pot:
  "\<not> stopped (current_of e name) \<Longrightarrow> pot (restart e name err) n = (if n = name then Suc (pot e n) else pot e n)"
  by (simp add: restart_def start_pot reset_pot)

lemma gotStopped_graphOK [simp]: "graphOK (gotStopped e name err) = graphOK e"
  by (simp add: gotStopped_cases)

lemma gotStopped_logOK:
  assumes "logOK e" "transposed e" "entriesOK e"
  shows "logOK (gotStopped e name err)"
proof (cases "stopped (current_of e name)")
  case True
  then show ?thesis
    using assms by (simp add: gotStopped_cases tombKill_logOK)
next
  case False
  then have "installed e name"
    using assms by (simp add: entriesOK_def)
  then show ?thesis
    using assms False dependents_installed [OF assms(2), of _ name]
    by (auto simp: gotStopped_cases tombKill_logOK restart_logOK intro!: bounceLoop_logOK)
qed

lemma gotStopped_entriesOK:
  assumes "transposed e" "entriesOK e"
  shows "entriesOK (gotStopped e name err)"
proof (cases "stopped (current_of e name)")
  case True
  then show ?thesis
    using assms by (simp add: gotStopped_cases)
next
  case False
  then have "installed e name"
    using assms by (simp add: entriesOK_def)
  then show ?thesis
    using assms False dependents_installed [OF assms(1), of _ name]
    by (auto simp: gotStopped_cases restart_entriesOK reset_entriesOK intro!: bounceLoop_entriesOK)
qed

lemma gotStopped_pot:
  assumes "\<not> stopped (current_of e name)"
  shows "pot (gotStopped e name err) n = (if n = name then Suc (pot e n) else pot e n)"
  using assms by (simp add: gotStopped_cases restart_pot reset_pot)

subsection \<open>The loop maintains the invariant\<close>

lemma live_not_stopped:
  "invariant st \<Longrightarrow> live st n \<Longrightarrow> \<not> stopped (current_of (eng st) n)"
proof
  assume inv: "invariant st" and l: "live st n" and s: "stopped (current_of (eng st) n)"
  from inv have "pot (eng st) n = Suc (count_list (reported st) n)"
    by (simp add: invariant_def)
  with s l show False
    by (simp add: pot_def live_def)
qed

lemma select_EvInstall:
  "select st (EvInstall name manifold) =
     st\<lparr>eng := (snd (gotInstall (eng st) name manifold))
                \<lparr>effects := effects (snd (gotInstall (eng st) name manifold)) @
                              [Result (fst (gotInstall (eng st) name manifold))]\<rparr>\<rparr>"
  by (simp split: prod.splits)

lemma invariant_transposed: "invariant st \<Longrightarrow> transposed (eng st)"
  by (simp add: invariant_def graphOK_def)

lemma select_invariant:
  assumes "invariant st" "enabled st ev"
  shows "invariant (select st ev)"
proof (cases ev)
  case ExtKill
  with assms show ?thesis
    by (simp add: invariant_def tombKill_logOK)
next
  case (EvDying names)
  with assms show ?thesis
    by (simp add: invariant_def stopAll_logOK stopAll_entriesOK)
next
  case (EvInstall name manifold)
  with assms show ?thesis
    unfolding EvInstall select_EvInstall
    by (simp add: invariant_def gotInstall_graphOK gotInstall_entriesOK gotInstall_logOK
        gotInstall_pot log_append_pot log_append_logOK)
next
  case (EvStarted name w)
  with assms have "\<not> stopped (current_of (eng st) name)"
    by (simp add: live_not_stopped)
  with assms EvStarted invariant_transposed [OF assms(1)] show ?thesis
    by (simp add: invariant_def gotStarted_logOK gotStarted_entriesOK gotStarted_pot)
next
  case (EvStopped name err)
  with assms have "\<not> stopped (current_of (eng st) name)"
    by (simp add: live_not_stopped)
  with assms EvStopped invariant_transposed [OF assms(1)] show ?thesis
    by (simp add: invariant_def gotStopped_logOK gotStopped_entriesOK gotStopped_pot)
qed

lemma loop_invariant: "invariant st \<Longrightarrow> invariant (fst (loop st evs))"
proof (induction evs arbitrary: st)
  case Nil
  then show ?case by simp
next
  case (Cons ev evs)
  show ?case
  proof (cases "enabled st ev")
    case True
    then have "invariant (select st ev)"
      using Cons.prems by (rule select_invariant [rotated])
    then have "invariant (fst (loop (select st ev) evs))"
      by (rule Cons.IH)
    with True \<open>invariant (select st ev)\<close> show ?thesis
      by (cases ev) (simp_all add: Let_def)
  next
    case False
    with Cons show ?thesis
      by (cases ev) simp_all
  qed
qed

lemma initial_invariant: "invariant (initial f ed bd :: 's loopState)"
proof -
  let ?e = "NewEngine f ed bd :: 's engine"
  have "transposed ?e"
    by (simp add: transposed_def NewEngine_def dependents_of_def manifold_of_def)
  moreover have "ranked ?e"
    by (simp add: ranked_def NewEngine_def manifold_of_def)
  moreover have "entriesOK ?e"
    by (simp add: entriesOK_def NewEngine_def current_of_def)
  moreover have "logOK ?e"
    by (simp add: logOK_def NewEngine_def)
  moreover have "pot ?e n = Suc 0" for n
    by (simp add: pot_def NewEngine_def current_of_def)
  ultimately show ?thesis
    by (simp add: invariant_def initial_def graphOK_def)
qed

lemma run_invariant: "invariant (run f ed bd evs)"
  unfolding run_def by (rule loop_invariant [OF initial_invariant])

subsection \<open>No cycle among the inputs\<close>

lemma ranked_acyclic: "ranked e \<Longrightarrow> acyclic (inputsRel e)"
proof -
  assume "ranked e"
  then obtain f :: "string \<Rightarrow> nat" where
    "\<And>d n. n \<in> set (Inputs (manifold_of e d)) \<Longrightarrow> f n < f d"
    by (auto simp: ranked_def)
  then have "\<And>a b. (a, b) \<in> inputsRel e \<Longrightarrow> f b < f a"
    by (simp add: inputsRel_def)
  then show ?thesis
    by (rule acyclicI_order)
qed

lemma no_self_dependent: "graphOK e \<Longrightarrow> name \<notin> set (dependents_of e name)"
proof
  assume g: "graphOK e" and "name \<in> set (dependents_of e name)"
  then have "(name, name) \<in> inputsRel e"
    by (simp add: graphOK_def transposed_def inputsRel_def)
  moreover have "acyclic (inputsRel e)"
    using g by (simp add: graphOK_def ranked_acyclic)
  ultimately show False
    by (auto simp: acyclic_def)
qed

lemma self_install_fails: "name \<in> set (Inputs manifold) \<Longrightarrow> fst (gotInstall e name manifold) \<noteq> None"
  by (auto simp: gotInstall_ok_iff)

subsection \<open>What a bounce touches\<close>

lemma effectsFor_append_log [simp]:
  "effectsFor n (e\<lparr>effects := effects e @ xs\<rparr>) = effectsFor n e @ filter (concerns n) xs"
  by (simp add: effectsFor_def)

lemma effectsFor_current [simp]: "effectsFor n (e\<lparr>current := c\<rparr>) = effectsFor n e"
  by (simp add: effectsFor_def)

lemma effectsFor_tombKill [simp]: "effectsFor n (tombKill r e) = effectsFor n e"
  by (simp add: tombKill_def)

lemma effectsFor_start:
  "effectsFor n (start e d dl) =
     effectsFor n e @ (if n = d \<and> \<not> isDying e then [Go d (manifold_of e d) dl] else [])"
  by (simp add: start_def Let_def effectsFor_def tombKill_def)

lemma effectsFor_stop:
  "effectsFor n (stop e d) =
     effectsFor n e @
       (if n = d \<and> \<not> stopping (current_of e d) \<and> \<not> stopped (current_of e d)
        then (case worker (current_of e d) of None \<Rightarrow> [] | Some w \<Rightarrow> [WorkerKill d w])
        else [])"
  by (simp add: effectsFor_def stop_effects split: option.splits)

lemma bounce_frame:
  "n \<noteq> d \<Longrightarrow> current_of (bounce e d) n = current_of e n \<and> effectsFor n (bounce e d) = effectsFor n e"
  by (simp add: bounce_def start_current_of stop_current_of effectsFor_start effectsFor_stop)

lemma bounceLoop_frame:
  "n \<notin> set ds \<Longrightarrow>
   current_of (bounceLoop e ds) n = current_of e n \<and> effectsFor n (bounceLoop e ds) = effectsFor n e"
  by (induction ds arbitrary: e) (auto simp: bounce_frame)

text \<open>What a bounce does to its own name is decided by a few observations of the state.\<close>

lemma bounce_at:
  assumes "current_of e' d = current_of e d" "isDying e' = isDying e"
    "manifold_of e' d = manifold_of e d" "bounceDelay e' = bounceDelay e"
    "effectsFor d e' = effectsFor d e"
  shows "current_of (bounce e' d) d = current_of (bounce e d) d \<and>
         effectsFor d (bounce e' d) = effectsFor d (bounce e d)"
  using assms
  by (simp add: bounce_def start_current_of stop_current_of effectsFor_start effectsFor_stop)

lemma bounceLoop_at:
  assumes "distinct ds" "d \<in> set ds" "\<forall>x \<in> set ds. installed e x"
  shows "current_of (bounceLoop e ds) d = current_of (bounce e d) d \<and>
         effectsFor d (bounceLoop e ds) = effectsFor d (bounce e d)"
  using assms
proof (induction ds arbitrary: e)
  case Nil
  then show ?case by simp
next
  case (Cons x ds)
  show ?case
  proof (cases "d = x")
    case True
    with Cons.prems have "d \<notin> set ds"
      by simp
    with True show ?thesis
      by (simp add: bounceLoop_frame)
  next
    case False
    with Cons.prems have d: "d \<in> set ds" "distinct ds" "\<forall>y \<in> set ds. installed (bounce e x) y"
      and x: "installed e x"
      by simp_all
    have "current_of (bounceLoop (bounce e x) ds) d = current_of (bounce (bounce e x) d) d \<and>
          effectsFor d (bounceLoop (bounce e x) ds) = effectsFor d (bounce (bounce e x) d)"
      using d by (intro Cons.IH)
    moreover have "current_of (bounce (bounce e x) d) d = current_of (bounce e d) d \<and>
          effectsFor d (bounce (bounce e x) d) = effectsFor d (bounce e d)"
      using False x by (intro bounce_at) (simp_all add: bounce_frame bounce_isDying)
    ultimately show ?thesis
      by simp
  qed
qed

lemma bounceLoop_fold: "bounceLoop e ds = fold (\<lambda>d s. bounce s d) ds e"
  by (induction ds arbitrary: e) auto

subsection \<open>The restart decision of gotStopped\<close>

lemma reset_frame [simp]:
  "effectsFor n (reset e x) = effectsFor n e" "manifold_of (reset e x) n = manifold_of e n"
  "bounceDelay (reset e x) = bounceDelay e" "errorDelay (reset e x) = errorDelay e"
  by (simp_all add: reset_def)


lemma restart_frame:
  "d \<noteq> name \<Longrightarrow> current_of (restart e name err) d = current_of e d"
  "d \<noteq> name \<Longrightarrow> effectsFor d (restart e name err) = effectsFor d e"
  "manifold_of (restart e name err) d = manifold_of e d"
  "bounceDelay (restart e name err) = bounceDelay e"
  by (auto simp: restart_def start_current_of effectsFor_start)

lemma restart_dependents_of [simp]: "dependents_of (restart e name err) d = dependents_of e d"
  by (simp add: dependents_of_def)

lemma restart_isDying: "installed e name \<Longrightarrow> isDying (restart e name err) = isDying e"
  by (simp add: restart_def start_isDying)

lemma run_graphOK: "graphOK (eng (run f ed bd evs))"
  using run_invariant [of f ed bd evs] by (simp add: invariant_def)

lemma run_entriesOK: "entriesOK (eng (run f ed bd evs))"
  using run_invariant [of f ed bd evs] by (simp add: invariant_def)

subsection \<open>A fatal error in gotStopped\<close>

lemma gotStopped_fatal:
  "\<not> stopped (current_of e name) \<Longrightarrow> isFatal e err \<Longrightarrow>
   gotStopped e name err = tombKill err (reset e name)"
  by (simp add: gotStopped_cases)

lemma tombKill_frame [simp]:
  "current (tombKill r e) = current e"
  "filter isGo (effects (tombKill r e)) = filter isGo (effects e)"
  by (simp_all add: tombKill_def)

lemma tombKill_effective:
  "r \<noteq> Some ErrDying \<Longrightarrow> tombKill r e = e\<lparr>effects := effects e @ [TombKill r]\<rparr>"
  by (simp add: tombKill_def)

lemma tombKill_panics:
  "\<not> isDying e \<Longrightarrow> tombKill (Some ErrDying) e = e\<lparr>effects := effects e @ [Panic]\<rparr>"
  by (simp add: tombKill_def)

lemma tombKill_ignored: "isDying e \<Longrightarrow> tombKill (Some ErrDying) e = e"
  by (simp add: tombKill_def)

subsection \<open>The reasons given to the tomb\<close>

lemma isFatal_tombKill [simp]: "isFatal (tombKill r e) = isFatal e"
  by (simp add: tombKill_def)

lemma isFatal_workerKill [simp]: "isFatal (workerKill n w e) = isFatal e"
  by (simp add: workerKill_def)

lemma isFatal_stopAll [simp]: "isFatal (stopAll e ns) = isFatal e"
  by (induction ns arbitrary: e) auto

lemma isFatal_register [simp]: "isFatal (register e name manifold) = isFatal e"
  by (simp add: register_def Let_def)

lemma isFatal_gotInstall [simp]: "isFatal (snd (gotInstall e name manifold)) = isFatal e"
  by (cases "fst (gotInstall e name manifold) = None") (simp_all add: gotInstall_ok gotInstall_fail)

lemma isFatal_gotStarted [simp]: "isFatal (gotStarted e name w) = isFatal e"
  by (simp add: gotStarted_cases)

lemma isFatal_restart [simp]: "isFatal (restart e name err) = isFatal e"
  by (simp add: restart_def reset_def)

lemma isFatal_gotStopped [simp]: "isFatal (gotStopped e name err) = isFatal e"
  by (simp add: gotStopped_cases reset_def)

lemma isFatal_select [simp]: "isFatal (eng (select st ev)) = isFatal (eng st)"
  by (cases ev) (simp_all add: select_EvInstall del: select.simps(2))



lemma killsOK_current [simp]: "killsOK (e\<lparr>current := c\<rparr>) = killsOK e"
  by (simp add: killsOK_def)

lemma killsOK_append:
  "killsOK e \<Longrightarrow> \<not> isTombKill x \<Longrightarrow> (\<forall>r. x \<noteq> TombKill r) \<Longrightarrow>
   killsOK (e\<lparr>effects := effects e @ [x]\<rparr>)"
  by (auto simp: killsOK_def)






















section \<open>Installing a manifold\<close>

text \<open>
  Claim C2. An install request fails exactly when the name is already installed or one
  of the declared inputs is not installed. A failed request leaves the whole engine as
  it was: no entry in \<open>manifolds\<close>, \<open>dependents\<close> or \<open>current\<close>, and no goroutine
  launched. When the name is new and an input is unknown, the error names the manifold
  and an unknown input: "B manifold depends on unknown A manifold".
\<close>

theorem gotInstall_validation:
  "(fst (gotInstall e name manifold) \<noteq> None \<longleftrightarrow>
      (map_of (manifolds e) name \<noteq> None \<or>
       (\<exists>input \<in> set (Inputs manifold). map_of (manifolds e) input = None)))
   \<and> (fst (gotInstall e name manifold) \<noteq> None \<longrightarrow> snd (gotInstall e name manifold) = e)
   \<and> (map_of (manifolds e) name = None \<and>
        (\<exists>input \<in> set (Inputs manifold). map_of (manifolds e) input = None) \<longrightarrow>
        (\<exists>input \<in> set (Inputs manifold). map_of (manifolds e) input = None \<and>
           fst (gotInstall e name manifold) =
             Some (Errorf (name @ '' manifold depends on unknown '' @ input @ '' manifold''))))"
proof (cases "firstUnknown (manifolds e) (Inputs manifold)")
  case None
  then show ?thesis
    using firstUnknown_None [of "manifolds e" "Inputs manifold"]
    by (auto simp: gotInstall_def Let_def)
next
  case (Some i)
  then show ?thesis
    using firstUnknown_Some [OF Some]
    by (auto simp: gotInstall_def Let_def)
qed

theorem gotInstall_validation_witness:
  "fst (gotInstall (NewEngine neverFatal 100 10) ''B'' manifoldB) =
     Some (Errorf ''B manifold depends on unknown A manifold'')
   \<and> snd (gotInstall (NewEngine neverFatal 100 10) ''B'' manifoldB) =
       NewEngine neverFatal 100 10"
proof -
  let ?e = "NewEngine neverFatal 100 10 :: nat engine"
  have h: "map_of (manifolds ?e) ''B'' = None \<and>
           (\<exists>input \<in> set (Inputs manifoldB). map_of (manifolds ?e) input = None)"
    by (simp add: NewEngine_def manifoldB_def)
  have i: "Inputs manifoldB = [''A'']"
    by (simp add: manifoldB_def)
  from gotInstall_validation [of ?e "''B''" manifoldB] h i show ?thesis
    by auto
qed

section \<open>The dependency graph is the transpose of the inputs, and acyclic\<close>

text \<open>
  Claim C7. After every sequence of events the loop has processed, install requests
  among them, a name \<open>d\<close> is listed in \<open>dependents\<close> under \<open>n\<close> exactly when
  \<open>n\<close> is among the inputs of the installed manifold \<open>d\<close>; the relation between
  manifolds and their inputs has no cycle, and so no manifold is its own input; and a
  request to install a manifold that names itself as an input fails in every engine
  state.
\<close>

theorem dependents_transpose_acyclic:
  "(\<forall>n d. d \<in> set (dependents_of (eng (run f ed bd evs)) n) \<longleftrightarrow>
           n \<in> set (Inputs (manifold_of (eng (run f ed bd evs)) d)))
   \<and> acyclic (inputsRel (eng (run f ed bd evs)))
   \<and> (\<forall>n. (n, n) \<notin> inputsRel (eng (run f ed bd evs)))
   \<and> (name \<in> set (Inputs manifold) \<longrightarrow> fst (gotInstall e name manifold) \<noteq> None)"
proof -
  have g: "graphOK (eng (run f ed bd evs))"
    by (rule run_graphOK)
  then have a: "acyclic (inputsRel (eng (run f ed bd evs)))"
    by (simp add: graphOK_def ranked_acyclic)
  then have "\<forall>n. (n, n) \<notin> inputsRel (eng (run f ed bd evs))"
    by (auto simp: acyclic_def)
  with g a show ?thesis
    by (simp add: graphOK_def transposed_def self_install_fails)
qed

theorem dependents_transpose_acyclic_witness:
  "''B'' \<in> set (dependents_of (eng (run neverFatal 100 10 bothRunning)) ''A'')
   \<and> ''A'' \<in> set (Inputs (manifold_of (eng (run neverFatal 100 10 bothRunning)) ''B''))
   \<and> acyclic (inputsRel (eng (run neverFatal 100 10 bothRunning)))
   \<and> fst (gotInstall (eng (run neverFatal 100 10 bothRunning)) ''C'' manifoldC) \<noteq> None"
proof -
  let ?e = "eng (run neverFatal 100 10 bothRunning)"
  have h: "''C'' \<in> set (Inputs manifoldC)"
    by (simp add: manifoldC_def)
  have b: "''B'' \<in> set (dependents_of ?e ''A'')"
    by code_simp
  from dependents_transpose_acyclic [of neverFatal 100 10 bothRunning "''C''" manifoldC ?e] h b
  show ?thesis
    by blast
qed

section \<open>No goroutine is launched once the tomb is dying\<close>

text \<open>
  Claim C8. A call of \<open>start\<close> on an engine whose tomb is dying returns the engine as
  it is: the entry is not marked starting and no goroutine is launched. And in the log
  of every run of the loop, no launch of a goroutine comes after the first call of the
  tomb's \<open>Kill\<close>, whether the loop made that call itself or it came from outside
  between two iterations.
\<close>

theorem no_launch_once_dying:
  "(isDying e \<longrightarrow> start e name delay = e)
   \<and> noGoAfterKill (effects (eng (run f ed bd evs)))"
  using run_invariant [of f ed bd evs] by (simp add: invariant_def logOK_def)

theorem no_launch_once_dying_witness:
  "isDying (tombKill None (NewEngine neverFatal 100 10 :: nat engine))
   \<and> start (tombKill None (NewEngine neverFatal 100 10 :: nat engine)) ''A'' 0 =
       tombKill None (NewEngine neverFatal 100 10)
   \<and> noGoAfterKill (effects (eng (run neverFatal 100 10
         [EvInstall ''A'' manifoldA, ExtKill, EvInstall ''B'' manifoldB])))"
proof -
  let ?e = "tombKill None (NewEngine neverFatal 100 10 :: nat engine)"
  have h: "isDying ?e"
    by simp
  from no_launch_once_dying [of ?e "''A''" 0 neverFatal 100 10
      "[EvInstall ''A'' manifoldA, ExtKill, EvInstall ''B'' manifoldB]"] h
  show ?thesis
    by blast
qed

section \<open>Bouncing the dependents\<close>

text \<open>
  Claim C4. \<open>bounceDependents\<close> goes through the names listed under \<open>name\<close> in
  \<open>dependents\<close>, in order, and for each of them calls \<open>start\<close> with the bounce
  delay when its entry satisfies \<open>stopped\<close> and \<open>stop\<close> otherwise; it has no
  argument for what triggered it. When the listed names are distinct and installed,
  each of them ends with the entry and the log entries that \<open>start\<close>, respectively
  \<open>stop\<close>, gives it in the state in which \<open>bounceDependents\<close> was called.
\<close>

theorem bounceDependents_each:
  "bounceDependents e name =
     fold (\<lambda>d s. if stopped (current_of s d) then start s d (bounceDelay s) else stop s d)
       (dependents_of e name) e
   \<and> (distinct (dependents_of e name) \<and>
       (\<forall>x \<in> set (dependents_of e name). map_of (manifolds e) x \<noteq> None) \<longrightarrow>
      (\<forall>d \<in> set (dependents_of e name).
         current_of (bounceDependents e name) d =
           current_of (if stopped (current_of e d) then start e d (bounceDelay e) else stop e d) d
       \<and> effectsFor d (bounceDependents e name) =
           effectsFor d (if stopped (current_of e d) then start e d (bounceDelay e) else stop e d)))"
proof -
  have b: "(\<lambda>d s. bounce s d) =
      (\<lambda>d (s :: 'a engine). if stopped (current_of s d) then start s d (bounceDelay s) else stop s d)"
    by (simp add: bounce_def fun_eq_iff)
  have "bounceDependents e name =
     fold (\<lambda>d s. if stopped (current_of s d) then start s d (bounceDelay s) else stop s d)
       (dependents_of e name) e"
    by (simp only: bounceDependents_def bounceLoop_fold b)
  moreover have "current_of (bounceDependents e name) d =
           current_of (if stopped (current_of e d) then start e d (bounceDelay e) else stop e d) d
       \<and> effectsFor d (bounceDependents e name) =
           effectsFor d (if stopped (current_of e d) then start e d (bounceDelay e) else stop e d)"
    if "distinct (dependents_of e name)"
      "\<forall>x \<in> set (dependents_of e name). map_of (manifolds e) x \<noteq> None"
      "d \<in> set (dependents_of e name)" for d
    using bounceLoop_at [of "dependents_of e name" d e] that
    by (simp add: bounceDependents_def installed_def bounce_def)
  ultimately show ?thesis
    by blast
qed

theorem bounceDependents_each_witness:
  "current_of (bounceDependents (eng (run neverFatal 100 10 bothRunning)) ''A'') ''B'' =
     current_of (stop (eng (run neverFatal 100 10 bothRunning)) ''B'') ''B''
   \<and> effectsFor ''B'' (bounceDependents (eng (run neverFatal 100 10 bothRunning)) ''A'') =
     effectsFor ''B'' (stop (eng (run neverFatal 100 10 bothRunning)) ''B'')"
proof -
  let ?e = "eng (run neverFatal 100 10 bothRunning)"
  have h: "distinct (dependents_of ?e ''A'') \<and>
           (\<forall>x \<in> set (dependents_of ?e ''A''). map_of (manifolds ?e) x \<noteq> None)"
    by code_simp
  have d: "''B'' \<in> set (dependents_of ?e ''A'')"
    by code_simp
  have s: "\<not> stopped (current_of ?e ''B'')"
    by code_simp
  from bounceDependents_each [of ?e "''A''"] h d s show ?thesis
    by auto
qed

section \<open>The stopped handler\<close>




text \<open>
  Claim C5, as amended. The loop handles a stopped notification for a name whose entry
  has a running worker. If the error does not satisfy the fatal predicate, the handler
  ends with \<open>bounceDependents\<close> for the name, called once the restart is decided,
  and so every dependent of the name is bounced: with the dependents listed once each,
  every one of them ends with the entry and the log entries that \<open>start\<close> with the
  bounce delay gives it when its entry was stopped, and that \<open>stop\<close> gives it
  otherwise. If the error satisfies the fatal predicate, no dependent is bounced: every
  other name keeps its entry and its log entries.
\<close>

theorem gotStopped_bounces_unless_fatal:
  "let e = eng (run f ed bd evs); e' = gotStopped e name err in
   worker (current_of e name) \<noteq> None \<longrightarrow>
     (\<not> isFatal e err \<longrightarrow> e' = bounceDependents (restart e name err) name)
   \<and> (\<not> isFatal e err \<and> distinct (dependents_of e name) \<longrightarrow>
        (\<forall>d \<in> set (dependents_of e name).
           current_of e' d =
             current_of (if stopped (current_of e d) then start e d (bounceDelay e) else stop e d) d
         \<and> effectsFor d e' =
             effectsFor d (if stopped (current_of e d) then start e d (bounceDelay e) else stop e d)))
   \<and> (isFatal e err \<longrightarrow>
        (\<forall>d. d \<noteq> name \<longrightarrow> current_of e' d = current_of e d \<and> effectsFor d e' = effectsFor d e))"
proof -
  define e where "e = eng (run f ed bd evs)"
  have g: "graphOK e" and eo: "entriesOK e"
    unfolding e_def by (rule run_graphOK, rule run_entriesOK)
  have self: "name \<notin> set (dependents_of e name)"
    using g by (rule no_self_dependent)
  have t: "transposed e"
    using g by (simp add: graphOK_def)
  have fatal: "current_of (gotStopped e name err) d = current_of e d \<and>
      effectsFor d (gotStopped e name err) = effectsFor d e"
    if "worker (current_of e name) \<noteq> None" "isFatal e err" "d \<noteq> name" for d
    using that by (simp add: gotStopped_cases stopped_def)
  have bounced: "current_of (gotStopped e name err) d = current_of (bounce e d) d \<and>
      effectsFor d (gotStopped e name err) = effectsFor d (bounce e d)"
    if w: "worker (current_of e name) \<noteq> None" and nf: "\<not> isFatal e err"
      and dist: "distinct (dependents_of e name)" and d: "d \<in> set (dependents_of e name)" for d
  proof -
    from w have ns: "\<not> stopped (current_of e name)"
      by (simp add: stopped_def)
    with eo have inst: "installed e name"
      by (simp add: entriesOK_def)
    from d self have dn: "d \<noteq> name"
      by auto
    have "\<forall>x \<in> set (dependents_of e name). installed (restart e name err) x"
      using dependents_installed [OF t] by simp
    with dist d have "current_of (bounceLoop (restart e name err) (dependents_of e name)) d =
        current_of (bounce (restart e name err) d) d \<and>
      effectsFor d (bounceLoop (restart e name err) (dependents_of e name)) =
        effectsFor d (bounce (restart e name err) d)"
      by (intro bounceLoop_at)
    moreover have "current_of (bounce (restart e name err) d) d = current_of (bounce e d) d \<and>
        effectsFor d (bounce (restart e name err) d) = effectsFor d (bounce e d)"
      using dn inst by (intro bounce_at) (simp_all add: restart_frame restart_isDying)
    ultimately show ?thesis
      using w nf ns by (simp add: gotStopped_cases)
  qed
  have called: "gotStopped e name err = bounceDependents (restart e name err) name"
    if "worker (current_of e name) \<noteq> None" "\<not> isFatal e err"
    using that by (simp add: gotStopped_cases stopped_def bounceDependents_def)
  show ?thesis
    unfolding Let_def e_def [symmetric]
    using fatal bounced called by (simp add: bounce_def)
qed

theorem gotStopped_bounces_unless_fatal_witness:
  "current_of (gotStopped (eng (run neverFatal 100 10 bothRunning)) ''A'' None) ''B'' =
     current_of (stop (eng (run neverFatal 100 10 bothRunning)) ''B'') ''B''
   \<and> effectsFor ''B'' (gotStopped (eng (run neverFatal 100 10 bothRunning)) ''A'' None) =
     effectsFor ''B'' (stop (eng (run neverFatal 100 10 bothRunning)) ''B'')"
proof -
  let ?e = "eng (run neverFatal 100 10 bothRunning)"
  have h: "worker (current_of ?e ''A'') \<noteq> None \<and> \<not> isFatal ?e None \<and>
           distinct (dependents_of ?e ''A'')"
    by code_simp
  have d: "''B'' \<in> set (dependents_of ?e ''A'')"
    by code_simp
  have s: "\<not> stopped (current_of ?e ''B'')"
    by code_simp
  from gotStopped_bounces_unless_fatal [of neverFatal 100 10 bothRunning "''A''" None] h d s
  show ?thesis
    by (auto simp: Let_def)
qed

text \<open>
  Against claim C5 as first stated: \<open>A\<close> and its dependent \<open>B\<close> are both running,
  and the worker of \<open>A\<close> ends with an error that the fatal predicate accepts. A bounce
  would call \<open>stop\<close> for \<open>B\<close> and set its stopping flag; the handler returns before
  it bounces anything, and the entry of \<open>B\<close> is as it was.
\<close>

theorem gotStopped_fatal_counterexample:
  "worker (current_of (eng (run (onlyFatal (Some (Errorf ''boom''))) 100 10 bothRunning)) ''A'') = Some 1
   \<and> ''B'' \<in> set (dependents_of (eng (run (onlyFatal (Some (Errorf ''boom''))) 100 10 bothRunning)) ''A'')
   \<and> isFatal (eng (run (onlyFatal (Some (Errorf ''boom''))) 100 10 bothRunning)) (Some (Errorf ''boom''))
   \<and> stopping (current_of
        (stop (eng (run (onlyFatal (Some (Errorf ''boom''))) 100 10 bothRunning)) ''B'') ''B'')
   \<and> \<not> stopping (current_of
        (gotStopped (eng (run (onlyFatal (Some (Errorf ''boom''))) 100 10 bothRunning))
           ''A'' (Some (Errorf ''boom''))) ''B'')
   \<and> current_of
        (gotStopped (eng (run (onlyFatal (Some (Errorf ''boom''))) 100 10 bothRunning))
           ''A'' (Some (Errorf ''boom''))) ''B'' =
       current_of (eng (run (onlyFatal (Some (Errorf ''boom''))) 100 10 bothRunning)) ''B''"
  by code_simp

text \<open>
  Claim C10. A stopped ticket reaches the loop only from a goroutine that has yet to
  report, and then the entry is not stopped, so the handler goes on to apply the fatal
  predicate to the reported value, whatever it is: an error, the dying sentinel, or
  the absent value of a clean exit. When the predicate returns true, none of the rules
  for restarting or parking applies: the entry is reset, no other entry changes and no
  goroutine is launched. The handler then passes the reported value to \<open>tomb.Kill\<close>
  and returns. For every value but the dying sentinel, the absent value among them, that
  call leaves the tomb dying with the value as its reason: with a predicate that
  accepts the absent value, every clean exit of a worker shuts the engine down. For the
  dying sentinel that a driver reports when it is cancelled during shutdown, the tomb is
  dying already and ignores the call.
\<close>

theorem gotStopped_applies_isFatal:
  "let st = run f ed bd evs; e = eng st; e' = gotStopped e name err in
   (enabled st (EvStopped name err) \<longrightarrow> \<not> stopped (current_of e name))
   \<and> (enabled st (EvStopped name err) \<and> isFatal e err \<longrightarrow>
        current e' = AList.update name emptyInfo (current e) \<and>
        filter isGo (effects e') = filter isGo (effects e))
   \<and> (enabled st (EvStopped name err) \<and> isFatal e err \<and> err \<noteq> Some ErrDying \<longrightarrow>
        e' = e\<lparr>current := AList.update name emptyInfo (current e),
               effects := effects e @ [TombKill err]\<rparr> \<and>
        isDying e')
   \<and> (enabled st (EvStopped name err) \<and> isFatal e err \<and> err = Some ErrDying \<and> isDying e \<longrightarrow>
        e' = e\<lparr>current := AList.update name emptyInfo (current e)\<rparr>)"
proof -
  define e where "e = eng (run f ed bd evs)"
  have ns: "\<not> stopped (current_of e name)"
    if "enabled (run f ed bd evs) (EvStopped name err)"
    unfolding e_def using that run_invariant [of f ed bd evs] by (simp add: live_not_stopped)
  have fatal: "gotStopped e name err = tombKill err (reset e name)"
    if "enabled (run f ed bd evs) (EvStopped name err)" "isFatal e err"
    using ns [OF that(1)] that(2) by (rule gotStopped_fatal)
  have f1: "current (gotStopped e name err) = AList.update name emptyInfo (current e) \<and>
      filter isGo (effects (gotStopped e name err)) = filter isGo (effects e)"
    if "enabled (run f ed bd evs) (EvStopped name err)" "isFatal e err"
    using fatal [OF that] by (simp add: reset_def)
  have f2: "gotStopped e name err =
      e\<lparr>current := AList.update name emptyInfo (current e),
        effects := effects e @ [TombKill err]\<rparr> \<and> isDying (gotStopped e name err)"
    if "enabled (run f ed bd evs) (EvStopped name err)" "isFatal e err" "err \<noteq> Some ErrDying"
    using fatal [OF that(1,2)] that(3) by (simp add: reset_def tombKill_effective isDying_def)
  have f3: "gotStopped e name err = e\<lparr>current := AList.update name emptyInfo (current e)\<rparr>"
    if "enabled (run f ed bd evs) (EvStopped name err)" "isFatal e err" "err = Some ErrDying"
      "isDying e"
    using fatal [OF that(1,2)] that(3,4) by (simp add: reset_def tombKill_ignored)
  show ?thesis
    unfolding Let_def e_def [symmetric]
    using ns f1 f2 f3 by blast
qed

theorem gotStopped_applies_isFatal_witness:
  "enabled (run (onlyFatal None) 100 10 runningA) (EvStopped ''A'' None)
   \<and> isFatal (eng (run (onlyFatal None) 100 10 runningA)) None
   \<and> gotStopped (eng (run (onlyFatal None) 100 10 runningA)) ''A'' None =
       (eng (run (onlyFatal None) 100 10 runningA))
         \<lparr>current := AList.update ''A'' emptyInfo
            (current (eng (run (onlyFatal None) 100 10 runningA))),
          effects := effects (eng (run (onlyFatal None) 100 10 runningA)) @ [TombKill None]\<rparr>
   \<and> isDying (gotStopped (eng (run (onlyFatal None) 100 10 runningA)) ''A'' None)"
proof -
  let ?st = "run (onlyFatal None) 100 10 runningA"
  have h: "enabled ?st (EvStopped ''A'' None) \<and> isFatal (eng ?st) None"
    by code_simp
  from gotStopped_applies_isFatal [of "onlyFatal None" 100 10 runningA "''A''" None] h
  show ?thesis
    by (simp add: Let_def isDying_def)
qed

text \<open>
  The case the rules above leave open: the fatal predicate accepts the dying sentinel,
  and a worker ends with it while the tomb is alive. The call of \<open>tomb.Kill\<close>
  panics; the entry has been reset, the tomb is not dying, and the loop takes no
  further event.
\<close>

lemma gotStopped_sentinel_alive:
  "enabled (run (onlyFatal (Some ErrDying)) 100 10 runningA) (EvStopped ''A'' (Some ErrDying))
   \<and> \<not> isDying (eng (run (onlyFatal (Some ErrDying)) 100 10 runningA))
   \<and> panicked (gotStopped (eng (run (onlyFatal (Some ErrDying)) 100 10 runningA))
        ''A'' (Some ErrDying))
   \<and> \<not> isDying (gotStopped (eng (run (onlyFatal (Some ErrDying)) 100 10 runningA))
        ''A'' (Some ErrDying))
   \<and> snd (loop (initial (onlyFatal (Some ErrDying)) 100 10)
        (runningA @ [EvStopped ''A'' (Some ErrDying), EvInstall ''B'' manifoldB])) = Panicked"
  by code_simp

section \<open>What Wait returns\<close>




section \<open>The resource accessor\<close>

text \<open>
  Claim C6, as amended. For the snapshot a driver takes of an engine state, the accessor
  returns false, slot untouched, when the name is not an input of the manifold or the
  state has no running worker for it. With a worker, and no output function declared by
  the input's manifold, it returns whether the caller's slot is absent, slot untouched:
  true for an absent slot and false for a present one. With a worker and an output
  function it returns what the output function returns for that worker and the slot.
\<close>

theorem getResource_cases:
  "getResource (runWorker_snapshot e manifold) r out =
     (if r \<notin> set (Inputs manifold) then (False, out)
      else case worker (current_of e r) of
             None \<Rightarrow> (False, out)
           | Some w \<Rightarrow>
               (case Output (manifold_of e r) of
                  None \<Rightarrow> (out = None, out)
                | Some f \<Rightarrow> f w out))"
  by (simp add: getResource_def runWorker_snapshot_def fillSnapshot_workers
      fillSnapshot_outputs emptySnapshot_def split: option.splits)

theorem getResource_cases_witness:
  "getResource (runWorker_snapshot (eng (run neverFatal 100 10 runningA)) manifoldB) ''A'' None =
     (True, None)"
proof -
  let ?e = "eng (run neverFatal 100 10 runningA)"
  have "''A'' \<in> set (Inputs manifoldB)"
    by (simp add: manifoldB_def)
  moreover have "worker (current_of ?e ''A'') = Some 1"
    by code_simp
  moreover have "Output (manifold_of ?e ''A'') = None"
    by code_simp
  ultimately show ?thesis
    using getResource_cases [of ?e manifoldB "''A''" None] by simp
qed

text \<open>
  Against claim C6 as first stated: input \<open>A\<close> has a running worker and declares no
  output function, and the caller passes a present slot. No output function is there to
  be invoked; the accessor returns false and leaves the slot alone.
\<close>

theorem getResource_present_slot_counterexample:
  "worker (current_of (eng (run neverFatal 100 10 runningA)) ''A'') = Some 1
   \<and> Output (manifold_of (eng (run neverFatal 100 10 runningA)) ''A'') = None
   \<and> getResource (runWorker_snapshot (eng (run neverFatal 100 10 runningA)) manifoldB)
        ''A'' (Some 7) = (False, Some (7::nat))"
  by code_simp

text \<open>
  Claim C9. Each driver is to take its snapshot at launch, before the loop changes the
  engine state again, and only the loop is to read the engine's maps. In the source the
  goroutine is launched on \<open>runWorker\<close> with the name, the manifold and the delay, and
  \<open>runWorker\<close> itself reads \<open>manifolds\<close> and \<open>current\<close> to fill the snapshot; so
  the snapshot is of the engine state at whatever moment the goroutine gets to run. Here
  \<open>A\<close> is running when \<open>B\<close> is installed and the goroutine of \<open>B\<close> is launched.
  Read in that state, the snapshot has the worker of \<open>A\<close>. Read after the loop has
  handled the clean exit of \<open>A\<close>, which it may do first, the snapshot has no worker
  for \<open>A\<close>, and the accessor answers false where it would have answered true.
\<close>

theorem runWorker_snapshot_not_at_launch:
  "goCount ''B'' (effects (eng (run neverFatal 100 10 (runningA @ [EvInstall ''B'' manifoldB])))) = 1
   \<and> workers (runWorker_snapshot
        (eng (run neverFatal 100 10 (runningA @ [EvInstall ''B'' manifoldB]))) manifoldB) ''A'' = Some 1
   \<and> workers (runWorker_snapshot
        (eng (run neverFatal 100 10 (runningA @ [EvInstall ''B'' manifoldB, EvStopped ''A'' None])))
        manifoldB) ''A'' = None
   \<and> getResource (runWorker_snapshot
        (eng (run neverFatal 100 10 (runningA @ [EvInstall ''B'' manifoldB]))) manifoldB)
        ''A'' None = (True, None)
   \<and> getResource (runWorker_snapshot
        (eng (run neverFatal 100 10 (runningA @ [EvInstall ''B'' manifoldB, EvStopped ''A'' None])))
        manifoldB) ''A'' None = (False, None)"
  by code_simp

end
